theory Spec2Isabelle
  imports Main
begin

section \<open>Values, errors and results\<close>

text \<open>
  The sources are dynamically typed Python: a \<open>Result\<close> holds any value in either of
  its two fields, and an AST node is an instance with a class and an attribute dictionary.
  The values the sources build are collected in one datatype: \<open>None\<close>, integers,
  strings, tuples, lists, the closure \<open>lambda l, r: BinopAexp(op, l, r)\<close> returned by
  \<open>process_binop(op)\<close>, and instances of the classes of \<open>ast.py\<close>.
\<close>

datatype cls =
    EqualityC
  | AexpC | IntAexpC | VarAexpC | BinopAexpC
  | BexpC | RelopBexpC | AndBexpC | OrBexpC | NotBexpC
  | StatementC | AssignmentStatementC | CompoundStatementC | IfStatementC | WhileStatementC

datatype pyval =
    PNone
  | PInt int
  | PStr string
  | PTuple "pyval list"
  | PList "pyval list"
  | PBinopFn pyval
  | PObj cls "(string \<times> pyval) list"

datatype error = IndexError | TypeError | AttributeError | ValueError

text \<open>
  \<open>class Result\<close> of \<open>combinators.py\<close>: a value and a position. Neither field is
  checked, so the position is a Python value like any other.
\<close>

datatype result = Result (res_value: pyval) (res_pos: pyval)

text \<open>
  A token is a (text, tag) pair. The tag constants are not defined in the sources, so the
  type of tags is a parameter; tags are compared by identity (\<open>is\<close>), which for symbols is
  equality.

  Applying a parser either does not return (\<open>None\<close>), raises (\<open>Some (Inl e)\<close>), fails
  by returning Python's \<open>None\<close> (\<open>Some (Inr None)\<close>) or succeeds with a \<open>Result\<close>
  (\<open>Some (Inr (Some r))\<close>).
\<close>

type_synonym 'tag token = "string \<times> 'tag"

type_synonym outcome = "(error + result option) option"

type_synonym 'tag parser = "'tag token list \<Rightarrow> pyval \<Rightarrow> outcome"

section \<open>Structural equality\<close>

text \<open>
  The classes of \<open>ast.py\<close> with their base classes, most derived first, and the
  constructors: \<open>__init__\<close> stores its arguments in the instance dictionary unchecked.

  The dictionary of an instance is represented by its items in the order in which the
  interpreter scans them when it compares the dictionary with another one. The sources are
  Python 2 (old-style classes, the \<open>print\<close> statement), where that is the order of the
  slots of the dictionary's hash table, not the order of the assignments in \<open>__init__\<close>.
  The slots below follow from CPython 2.7's string hash (64-bit, hash randomisation off, as
  by default) and its collision probing in a table of eight slots, for the attribute names
  inserted in the order \<open>__init__\<close> assigns them: \<open>op\<close> 7, then \<open>left\<close> 3,
  \<open>right\<close> 4 (without \<open>op\<close>: \<open>left\<close> 7, \<open>right\<close> 3); \<open>name\<close> 5, \<open>aexp\<close> 2;
  \<open>first\<close> 7, \<open>second\<close> 2; \<open>condition\<close> 6, \<open>true_stmt\<close> 0, \<open>false_stmt\<close> 4,
  \<open>body\<close> 0.
\<close>

fun mro :: "cls \<Rightarrow> cls list" where
  "mro EqualityC = [EqualityC]"
| "mro AexpC = [AexpC, EqualityC]"
| "mro IntAexpC = [IntAexpC, AexpC, EqualityC]"
| "mro VarAexpC = [VarAexpC, AexpC, EqualityC]"
| "mro BinopAexpC = [BinopAexpC, AexpC, EqualityC]"
| "mro BexpC = [BexpC, EqualityC]"
| "mro RelopBexpC = [RelopBexpC, BexpC, EqualityC]"
| "mro AndBexpC = [AndBexpC, BexpC, EqualityC]"
| "mro OrBexpC = [OrBexpC, BexpC, EqualityC]"
| "mro NotBexpC = [NotBexpC, BexpC, EqualityC]"
| "mro StatementC = [StatementC, EqualityC]"
| "mro AssignmentStatementC = [AssignmentStatementC, StatementC, EqualityC]"
| "mro CompoundStatementC = [CompoundStatementC, StatementC, EqualityC]"
| "mro IfStatementC = [IfStatementC, StatementC, EqualityC]"
| "mro WhileStatementC = [WhileStatementC, StatementC, EqualityC]"

definition IntAexp :: "pyval \<Rightarrow> pyval" where
  "IntAexp i = PObj IntAexpC [(''i'', i)]"

definition VarAexp :: "pyval \<Rightarrow> pyval" where
  "VarAexp name = PObj VarAexpC [(''name'', name)]"

definition BinopAexp :: "pyval \<Rightarrow> pyval \<Rightarrow> pyval \<Rightarrow> pyval" where
  "BinopAexp op left right = PObj BinopAexpC [(''left'', left), (''right'', right), (''op'', op)]"

definition RelopBexp :: "pyval \<Rightarrow> pyval \<Rightarrow> pyval \<Rightarrow> pyval" where
  "RelopBexp op left right = PObj RelopBexpC [(''left'', left), (''right'', right), (''op'', op)]"

definition AndBexp :: "pyval \<Rightarrow> pyval \<Rightarrow> pyval" where
  "AndBexp left right = PObj AndBexpC [(''right'', right), (''left'', left)]"

definition OrBexp :: "pyval \<Rightarrow> pyval \<Rightarrow> pyval" where
  "OrBexp left right = PObj OrBexpC [(''right'', right), (''left'', left)]"

definition NotBexp :: "pyval \<Rightarrow> pyval" where
  "NotBexp exp = PObj NotBexpC [(''exp'', exp)]"

definition AssignmentStatement :: "pyval \<Rightarrow> pyval \<Rightarrow> pyval" where
  "AssignmentStatement name aexp = PObj AssignmentStatementC [(''aexp'', aexp), (''name'', name)]"

definition CompoundStatement :: "pyval \<Rightarrow> pyval \<Rightarrow> pyval" where
  "CompoundStatement first second =
     PObj CompoundStatementC [(''second'', second), (''first'', first)]"

definition IfStatement :: "pyval \<Rightarrow> pyval \<Rightarrow> pyval \<Rightarrow> pyval" where
  "IfStatement condition true_stmt false_stmt =
     PObj IfStatementC
       [(''true_stmt'', true_stmt), (''false_stmt'', false_stmt), (''condition'', condition)]"

definition WhileStatement :: "pyval \<Rightarrow> pyval \<Rightarrow> pyval" where
  "WhileStatement condition body = PObj WhileStatementC [(''body'', body), (''condition'', condition)]"

text \<open>
  \<open>isinstance(other, self.__class__)\<close> and \<open>other.__dict__\<close>. Only instances and
  functions have an attribute dictionary (a lambda's is empty); for \<open>None\<close>, a number, a
  string, a tuple or a list the attribute access raises \<open>AttributeError\<close>.
\<close>

fun isinstance :: "pyval \<Rightarrow> cls \<Rightarrow> bool" where
  "isinstance (PObj c d) k = (k \<in> set (mro c))"
| "isinstance _ k = False"

fun dict_of :: "pyval \<Rightarrow> error + (string \<times> pyval) list" where
  "dict_of (PObj c d) = Inr d"
| "dict_of (PBinopFn op) = Inr []"
| "dict_of _ = Inl AttributeError"

text \<open>
  Python's \<open>==\<close> on these values, with \<open>Equality.__eq__\<close> for instances. The method
  builds the list \<open>[isinstance(other, self.__class__), self.__dict__ == other.__dict__]\<close>
  and only then calls \<open>all\<close>, so both elements are always evaluated. When only the
  right operand is an instance, Python calls its \<open>__eq__\<close> with the operands swapped.

  Two dictionaries are equal when they have as many keys and every value of the left one
  equals the right one's value under the same key; the scan goes through the items of the
  left one in the order of its slots and stops at the first value that differs or whose
  comparison raises. Tuples are compared element by element up to the first difference and
  then by length; lists by length first.

  Function objects are compared by identity. The two operands are values built separately,
  and every call of \<open>process_binop\<close> makes a new function object, so a closure in one
  operand is never the object in the other: comparing a closure with anything is false.
\<close>

fun py_eq :: "pyval \<Rightarrow> pyval \<Rightarrow> error + bool"
  and seq_eq :: "pyval list \<Rightarrow> pyval list \<Rightarrow> error + bool"
  and dict_items_eq :: "(string \<times> pyval) list \<Rightarrow> (string \<times> pyval) list \<Rightarrow> error + bool"
where
  "py_eq (PObj c d) other =
     (case dict_of other of
        Inl e \<Rightarrow> Inl e
      | Inr d' \<Rightarrow>
          (if length d \<noteq> length d' then Inr False
           else case dict_items_eq d d' of
                  Inl e \<Rightarrow> Inl e
                | Inr b \<Rightarrow> Inr (isinstance other c \<and> b)))"
| "py_eq PNone w =
     (case w of PNone \<Rightarrow> Inr True | PObj c d \<Rightarrow> Inl AttributeError | _ \<Rightarrow> Inr False)"
| "py_eq (PInt a) w =
     (case w of PInt b \<Rightarrow> Inr (a = b) | PObj c d \<Rightarrow> Inl AttributeError | _ \<Rightarrow> Inr False)"
| "py_eq (PStr a) w =
     (case w of PStr b \<Rightarrow> Inr (a = b) | PObj c d \<Rightarrow> Inl AttributeError | _ \<Rightarrow> Inr False)"
| "py_eq (PTuple xs) w =
     (case w of PTuple ys \<Rightarrow> seq_eq xs ys | PObj c d \<Rightarrow> Inl AttributeError
      | _ \<Rightarrow> Inr False)"
| "py_eq (PList xs) w =
     (case w of
        PList ys \<Rightarrow> if length xs \<noteq> length ys then Inr False else seq_eq xs ys
      | PObj c d \<Rightarrow> Inl AttributeError
      | _ \<Rightarrow> Inr False)"
| "py_eq (PBinopFn a) w = Inr False"
| "seq_eq [] ys = Inr (ys = [])"
| "seq_eq (x # xs) [] = Inr False"
| "seq_eq (x # xs) (y # ys) =
     (case py_eq x y of
        Inl e \<Rightarrow> Inl e
      | Inr b \<Rightarrow> if b then seq_eq xs ys else Inr False)"
| "dict_items_eq [] d' = Inr True"
| "dict_items_eq ((k, v) # d) d' =
     (case map_of d' k of
        None \<Rightarrow> Inr False
      | Some v' \<Rightarrow>
          (case py_eq v v' of
             Inl e \<Rightarrow> Inl e
           | Inr b \<Rightarrow> if b then dict_items_eq d d' else Inr False))"

section \<open>Indexing the token list\<close>

text \<open>
  \<open>tokens[pos]\<close>: a list index must be an integer (\<open>TypeError\<close> otherwise); a negative
  index counts from the end; an index out of range raises \<open>IndexError\<close>.
\<close>

definition py_getitem :: "'a list \<Rightarrow> pyval \<Rightarrow> error + 'a" where
  "py_getitem xs pos =
     (case pos of
        PInt i \<Rightarrow>
          if 0 \<le> i \<and> i < int (length xs) then Inr (xs ! nat i)
          else if i < 0 \<and> - int (length xs) \<le> i then Inr (xs ! nat (int (length xs) + i))
          else Inl IndexError
      | _ \<Rightarrow> Inl TypeError)"

section \<open>Primitive parsers\<close>

text \<open>
  \<open>Reserved.__call__\<close> and \<open>Tag.__call__\<close> build the list \<open>logic\<close> before \<open>all\<close>
  looks at it, so \<open>tokens[pos]\<close> is evaluated whatever \<open>pos < len(tokens)\<close> gave, and
  its exception escapes. The branch taken once the list exists needs an integer position:
  \<open>tokens[pos]\<close> has already raised for any other value.
\<close>

definition Reserved :: "string \<Rightarrow> 'tag \<Rightarrow> 'tag parser" where
  "Reserved v tg tokens pos =
     (case py_getitem tokens pos of
        Inl e \<Rightarrow> Some (Inl e)
      | Inr tok \<Rightarrow>
          (case pos of
             PInt i \<Rightarrow>
               if i < int (length tokens) \<and> fst tok = v \<and> snd tok = tg
               then Some (Inr (Some (Result (PStr (fst tok)) (PInt (i + 1)))))
               else Some (Inr None)
           | _ \<Rightarrow> Some (Inl TypeError)))"

definition Tag :: "'tag \<Rightarrow> 'tag parser" where
  "Tag tg tokens pos =
     (case py_getitem tokens pos of
        Inl e \<Rightarrow> Some (Inl e)
      | Inr tok \<Rightarrow>
          (case pos of
             PInt i \<Rightarrow>
               if i < int (length tokens) \<and> snd tok = tg
               then Some (Inr (Some (Result (PStr (fst tok)) (PInt (i + 1)))))
               else Some (Inr None)
           | _ \<Rightarrow> Some (Inl TypeError)))"

section \<open>Sequence\<close>

text \<open>
  \<open>Concat.__call__\<close>. A \<open>Result\<close> object is always true in a condition and \<open>None\<close>
  is false. The source returns \<open>Result(combined_value, right_result.value)\<close>: the second
  field of the new result is the right result's value.
\<close>

definition Concat :: "'tag parser \<Rightarrow> 'tag parser \<Rightarrow> 'tag parser" where
  "Concat left right tokens pos =
     (case left tokens pos of
        None \<Rightarrow> None
      | Some (Inl e) \<Rightarrow> Some (Inl e)
      | Some (Inr None) \<Rightarrow> Some (Inr None)
      | Some (Inr (Some left_result)) \<Rightarrow>
          (case right tokens (res_pos left_result) of
             None \<Rightarrow> None
           | Some (Inl e) \<Rightarrow> Some (Inl e)
           | Some (Inr None) \<Rightarrow> Some (Inr None)
           | Some (Inr (Some right_result)) \<Rightarrow>
               Some (Inr (Some (Result
                 (PTuple [res_value left_result, res_value right_result])
                 (res_value right_result))))))"

section \<open>Choice, option, repetition, transformation\<close>

definition Alternate :: "'tag parser \<Rightarrow> 'tag parser \<Rightarrow> 'tag parser" where
  "Alternate left right tokens pos =
     (case left tokens pos of
        None \<Rightarrow> None
      | Some (Inl e) \<Rightarrow> Some (Inl e)
      | Some (Inr None) \<Rightarrow> right tokens pos
      | Some (Inr (Some left_result)) \<Rightarrow> Some (Inr (Some left_result)))"

definition Opt :: "'tag parser \<Rightarrow> 'tag parser" where
  "Opt p tokens pos =
     (case p tokens pos of
        None \<Rightarrow> None
      | Some (Inl e) \<Rightarrow> Some (Inl e)
      | Some (Inr None) \<Rightarrow> Some (Inr (Some (Result PNone pos)))
      | Some (Inr (Some r)) \<Rightarrow> Some (Inr (Some r)))"

text \<open>
  \<open>Rep.__call__\<close>: the \<open>while result\<close> loop, with the list \<open>results\<close> and the
  position \<open>pos\<close> as its state. Nothing bounds the number of rounds, so the loop is a
  partial function: \<open>None\<close> is a run that never leaves the loop.
\<close>

partial_function (option) Rep_loop ::
  "'tag parser \<Rightarrow> 'tag token list \<Rightarrow> pyval list \<Rightarrow> pyval \<Rightarrow> (error + result option) option"
where
  "Rep_loop p tokens results pos =
     (case p tokens pos of
        None \<Rightarrow> None
      | Some (Inl e) \<Rightarrow> Some (Inl e)
      | Some (Inr None) \<Rightarrow> Some (Inr (Some (Result (PList results) pos)))
      | Some (Inr (Some r)) \<Rightarrow> Rep_loop p tokens (results @ [res_value r]) (res_pos r))"

definition Rep :: "'tag parser \<Rightarrow> 'tag parser" where
  "Rep p tokens pos = Rep_loop p tokens [] pos"

text \<open>
  \<open>Process.__call__\<close>: the function may raise; without a result the method ends
  without a \<open>return\<close>, which is \<open>None\<close>.
\<close>

definition Process :: "'tag parser \<Rightarrow> (pyval \<Rightarrow> error + pyval) \<Rightarrow> 'tag parser" where
  "Process p fn tokens pos =
     (case p tokens pos of
        None \<Rightarrow> None
      | Some (Inl e) \<Rightarrow> Some (Inl e)
      | Some (Inr None) \<Rightarrow> Some (Inr None)
      | Some (Inr (Some r)) \<Rightarrow>
          (case fn (res_value r) of
             Inl e \<Rightarrow> Some (Inl e)
           | Inr v \<Rightarrow> Some (Inr (Some (Result v (res_pos r))))))"

section \<open>Deferred reference\<close>

text \<open>
  A \<open>Lazy\<close> instance has two attributes, \<open>parser\<close> (initially \<open>None\<close>) and
  \<open>parser_fn\<close>. The producer is a Python function and may have effects of its own, so
  it takes and returns a state of the world \<open>'w\<close>; \<open>__call__\<close> returns the outcome, the
  updated instance and the world. A parser object is true in a condition, so
  \<open>not self.parser\<close> holds exactly while the attribute is \<open>None\<close>.
\<close>

record ('tag, 'w) lazy =
  parser :: "'tag parser option"
  parser_fn :: "'w \<Rightarrow> 'tag parser \<times> 'w"

definition Lazy_init :: "('w \<Rightarrow> 'tag parser \<times> 'w) \<Rightarrow> ('tag, 'w) lazy" where
  "Lazy_init f = \<lparr>parser = None, parser_fn = f\<rparr>"

definition Lazy_call ::
  "('tag, 'w) lazy \<Rightarrow> 'tag token list \<Rightarrow> pyval \<Rightarrow> 'w \<Rightarrow> outcome \<times> ('tag, 'w) lazy \<times> 'w"
where
  "Lazy_call self tokens pos w =
     (case parser self of
        None \<Rightarrow>
          (case parser_fn self w of
             (p, w') \<Rightarrow> (p tokens pos, self\<lparr>parser := Some p\<rparr>, w'))
      | Some p \<Rightarrow> (p tokens pos, self, w))"

text \<open>
  Applying a \<open>Lazy\<close> instance several times, one after the other, collecting the
  outcomes.
\<close>

fun Lazy_calls ::
  "('tag, 'w) lazy \<Rightarrow> ('tag token list \<times> pyval) list \<Rightarrow> 'w \<Rightarrow> outcome list \<times> ('tag, 'w) lazy \<times> 'w"
where
  "Lazy_calls self [] w = ([], self, w)"
| "Lazy_calls self ((tokens, pos) # rest) w =
     (case Lazy_call self tokens pos w of
        (out, self', w') \<Rightarrow>
          (case Lazy_calls self' rest w' of
             (outs, self'', w'') \<Rightarrow> (out # outs, self'', w'')))"

text \<open>
  Inside a grammar the producer is a pure function and only the outcome matters: the
  parser a fresh \<open>Lazy\<close> instance denotes.
\<close>

definition Lazy :: "(unit \<Rightarrow> 'tag parser) \<Rightarrow> 'tag parser" where
  "Lazy f tokens pos = fst (Lazy_call (Lazy_init (\<lambda>w. (f (), w))) tokens pos ())"

section \<open>Full consumption\<close>

text \<open>
  \<open>Phrase.__call__\<close> compares \<open>result.pos == len(tokens)\<close> with Python's \<open>==\<close>.
\<close>

definition Phrase :: "'tag parser \<Rightarrow> 'tag parser" where
  "Phrase p tokens pos =
     (case p tokens pos of
        None \<Rightarrow> None
      | Some (Inl e) \<Rightarrow> Some (Inl e)
      | Some (Inr None) \<Rightarrow> Some (Inr None)
      | Some (Inr (Some r)) \<Rightarrow>
          (case py_eq (res_pos r) (PInt (int (length tokens))) of
             Inl e \<Rightarrow> Some (Inl e)
           | Inr b \<Rightarrow> if b then Some (Inr (Some r)) else Some (Inr None)))"

section \<open>Separator-driven accumulation\<close>

text \<open>
  Unpacking a value into two names: a tuple, list or string of length two unpacks, one of
  another length raises \<open>ValueError\<close>, anything else is not iterable.
\<close>

fun unpack2 :: "pyval \<Rightarrow> error + pyval \<times> pyval" where
  "unpack2 (PTuple [a, b]) = Inr (a, b)"
| "unpack2 (PList [a, b]) = Inr (a, b)"
| "unpack2 (PStr [a, b]) = Inr (PStr [a], PStr [b])"
| "unpack2 (PTuple xs) = Inl ValueError"
| "unpack2 (PList xs) = Inl ValueError"
| "unpack2 (PStr xs) = Inl ValueError"
| "unpack2 _ = Inl TypeError"

text \<open>
  Calling a value with two arguments. The only function among the values is the closure of
  \<open>process_binop\<close>; an instance of an old-style class has no \<open>__call__\<close> attribute,
  and the other values are not callable.
\<close>

fun py_call2 :: "pyval \<Rightarrow> pyval \<Rightarrow> pyval \<Rightarrow> error + pyval" where
  "py_call2 (PBinopFn op) l r = Inr (BinopAexp op l r)"
| "py_call2 (PObj c d) l r = Inl AttributeError"
| "py_call2 _ l r = Inl TypeError"

text \<open>
  \<open>Exp.__call__\<close>. The local function \<open>process_next\<close> reads the variable \<open>result\<close>
  of the enclosing call when it runs, so it takes the current result as an argument.
  \<open>self.separator + self.parser ^ process_next\<close> is
  \<open>Process(Concat(self.separator, self.parser), process_next)\<close>, since \<open>+\<close> binds
  tighter than \<open>^\<close>. The loop state is \<open>result\<close>; the loop is entered only when the first
  application gave a result.
\<close>

definition process_next :: "result \<Rightarrow> pyval \<Rightarrow> error + pyval" where
  "process_next result parsed =
     (case unpack2 parsed of
        Inl e \<Rightarrow> Inl e
      | Inr (sepfn, right) \<Rightarrow> py_call2 sepfn (res_value result) right)"

partial_function (option) Exp_loop ::
  "'tag parser \<Rightarrow> 'tag parser \<Rightarrow> 'tag token list \<Rightarrow> result \<Rightarrow> (error + result option) option"
where
  "Exp_loop p separator tokens result =
     (case Process (Concat separator p) (process_next result) tokens (res_pos result) of
        None \<Rightarrow> None
      | Some (Inl e) \<Rightarrow> Some (Inl e)
      | Some (Inr None) \<Rightarrow> Some (Inr (Some result))
      | Some (Inr (Some next_result)) \<Rightarrow> Exp_loop p separator tokens next_result)"

definition Exp :: "'tag parser \<Rightarrow> 'tag parser \<Rightarrow> 'tag parser" where
  "Exp p separator tokens pos =
     (case p tokens pos of
        None \<Rightarrow> None
      | Some (Inl e) \<Rightarrow> Some (Inl e)
      | Some (Inr None) \<Rightarrow> Some (Inr None)
      | Some (Inr (Some result)) \<Rightarrow> Exp_loop p separator tokens result)"

section \<open>The arithmetic-expression grammar\<close>

text \<open>
  Modelled from the spec: the tag symbols \<open>RESERVED\<close>, \<open>INT\<close> and \<open>ID\<close>, which
  \<open>parser.py\<close> imports from a lexer module that defines none of them; the spec names them
  as the symbols for reserved words and operators, integer literals and identifiers.
  (\<open>INT\<close> is reserved syntax in HOL, hence the suffix.)
\<close>

datatype tag = RESERVED_tag | INT_tag | ID_tag

text \<open>
  The built-in \<open>int\<close>: an integer is returned as it is; a string must hold a decimal
  number, possibly signed, possibly surrounded by whitespace; an old-style instance has no
  conversion attribute; the other values are of the wrong type.
\<close>

definition is_space :: "char \<Rightarrow> bool" where
  "is_space c = (c \<in> set [CHR '' '', CHR 0x09, CHR 0x0A, CHR 0x0B, CHR 0x0C, CHR 0x0D])"

definition is_digit :: "char \<Rightarrow> bool" where
  "is_digit c = (c \<in> set ''0123456789'')"

definition strip :: "string \<Rightarrow> string" where
  "strip s = rev (dropWhile is_space (rev (dropWhile is_space s)))"

definition digits_value :: "string \<Rightarrow> int" where
  "digits_value s = foldl (\<lambda>a c. 10 * a + (int (of_char c) - 48)) 0 s"

definition int_of_digits :: "string \<Rightarrow> error + int" where
  "int_of_digits s = (if s \<noteq> [] \<and> list_all is_digit s then Inr (digits_value s) else Inl ValueError)"

fun py_int :: "pyval \<Rightarrow> error + pyval" where
  "py_int (PInt i) = Inr (PInt i)"
| "py_int (PStr s) =
     (case strip s of
        c # ds \<Rightarrow>
          if c = CHR ''-'' then map_sum id (\<lambda>n. PInt (- n)) (int_of_digits ds)
          else if c = CHR ''+'' then map_sum id PInt (int_of_digits ds)
          else map_sum id PInt (int_of_digits (c # ds))
      | [] \<Rightarrow> Inl ValueError)"
| "py_int (PObj c d) = Inl AttributeError"
| "py_int _ = Inl TypeError"

definition id_parser :: "tag parser" where
  "id_parser = Tag ID_tag"

definition num :: "tag parser" where
  "num = Process (Tag INT_tag) (\<lambda>i. py_int i)"

definition aexp_precedence_list :: "string list list" where
  "aexp_precedence_list = [[''*'', ''/''], [''+'', ''-'']]"

definition keyword :: "string \<Rightarrow> tag parser" where
  "keyword kw = Reserved kw RESERVED_tag"

definition aexp_value :: "tag parser" where
  "aexp_value =
     Alternate (Process num (\<lambda>i. Inr (IntAexp i))) (Process id_parser (\<lambda>v. Inr (VarAexp v)))"

text \<open>\<open>((_, p), _) = parsed\<close>: the outer pair is unpacked first, then its first part.\<close>

definition process_group :: "pyval \<Rightarrow> error + pyval" where
  "process_group parsed =
     (case unpack2 parsed of
        Inl e \<Rightarrow> Inl e
      | Inr (inner, _) \<Rightarrow> (case unpack2 inner of Inl e \<Rightarrow> Inl e | Inr (_, p) \<Rightarrow> Inr p))"

text \<open>
  \<open>aexp_group\<close> refers to a function \<open>aexp\<close>, the producer of the whole expression
  parser, which the sources never define; it is a parameter here.
\<close>

definition aexp_group :: "(unit \<Rightarrow> tag parser) \<Rightarrow> tag parser" where
  "aexp_group aexp =
     Process (Concat (Concat (keyword ''('') (Lazy aexp)) (keyword '')'')) process_group"

definition aexp_term :: "(unit \<Rightarrow> tag parser) \<Rightarrow> tag parser" where
  "aexp_term aexp = Alternate aexp_value (aexp_group aexp)"

definition process_binop :: "pyval \<Rightarrow> error + pyval" where
  "process_binop op = Inr (PBinopFn op)"

text \<open>
  \<open>reduce\<close> without an initial value raises \<open>TypeError\<close> on an empty list, and
  \<open>precedence_levels[0]\<close> raises \<open>IndexError\<close> on one, so building a parser can fail.
\<close>

definition any_op_in_list :: "string list \<Rightarrow> error + tag parser" where
  "any_op_in_list ops =
     (case map keyword ops of
        [] \<Rightarrow> Inl TypeError
      | q # qs \<Rightarrow> Inr (foldl (\<lambda>l r. Alternate l r) q qs))"

definition op_parser :: "(pyval \<Rightarrow> error + pyval) \<Rightarrow> string list \<Rightarrow> error + tag parser" where
  "op_parser combine precedence_level =
     (case any_op_in_list precedence_level of
        Inl e \<Rightarrow> Inl e
      | Inr q \<Rightarrow> Inr (Process q combine))"

fun precedence_loop ::
  "(pyval \<Rightarrow> error + pyval) \<Rightarrow> tag parser \<Rightarrow> string list list \<Rightarrow> error + tag parser"
where
  "precedence_loop combine p [] = Inr p"
| "precedence_loop combine p (precedence_level # rest) =
     (case op_parser combine precedence_level of
        Inl e \<Rightarrow> Inl e
      | Inr sep \<Rightarrow> precedence_loop combine (Exp p sep) rest)"

definition precedence ::
  "tag parser \<Rightarrow> string list list \<Rightarrow> (pyval \<Rightarrow> error + pyval) \<Rightarrow> error + tag parser"
where
  "precedence value_parser precedence_levels combine =
     (case precedence_levels of
        [] \<Rightarrow> Inl IndexError
      | precedence_level # rest \<Rightarrow>
          (case op_parser combine precedence_level of
             Inl e \<Rightarrow> Inl e
           | Inr sep \<Rightarrow> precedence_loop combine (Exp value_parser sep) rest))"

text \<open>Building a parser and, when that raised nothing, applying it.\<close>

definition apply_built :: "error + tag parser \<Rightarrow> tag token list \<Rightarrow> pyval \<Rightarrow> outcome" where
  "apply_built built tokens pos =
     (case built of Inl e \<Rightarrow> Some (Inl e) | Inr p \<Rightarrow> p tokens pos)"

section \<open>The lexer\<close>

text \<open>
  Modelled from the spec: the regular-expression facility (\<open>re.compile\<close> and
  \<open>regex.match(characters, pos)\<close>), which is a library outside the sources. A pattern is
  given by what matching it does: for a text and an offset, the end offset of the match
  that starts at that offset, or nothing. The matched text \<open>match.group(0)\<close> is the slice
  of the text between the two offsets. A match object is always true in a condition, an
  empty match too.
\<close>

type_synonym pattern = "string \<Rightarrow> nat \<Rightarrow> nat option"

definition slice :: "string \<Rightarrow> nat \<Rightarrow> nat \<Rightarrow> string" where
  "slice characters start stop = take (stop - start) (drop start characters)"

text \<open>
  What the library guarantees of a match of a pattern at an offset of a text: it ends at or
  after the offset and within the text.
\<close>

definition pattern_ok :: "pattern \<Rightarrow> bool" where
  "pattern_ok m =
     (\<forall>characters pos e. pos \<le> length characters \<longrightarrow> m characters pos = Some e
        \<longrightarrow> pos \<le> e \<and> e \<le> length characters)"

text \<open>
  Two kinds of pattern, for the examples of the spec: a literal text such as \<open>if\<close>, and
  one or more characters of a class, as many as there are, such as \<open>[a-zA-Z]+\<close>.
\<close>

definition re_literal :: "string \<Rightarrow> pattern" where
  "re_literal s characters pos =
     (if take (length s) (drop pos characters) = s then Some (pos + length s) else None)"

definition re_class_plus :: "(char \<Rightarrow> bool) \<Rightarrow> pattern" where
  "re_class_plus P characters pos =
     (let n = length (takeWhile P (drop pos characters))
      in if n = 0 then None else Some (pos + n))"

definition is_alpha :: "char \<Rightarrow> bool" where
  "is_alpha c = (c \<in> set ''abcdefghijklmnopqrstuvwxyzABCDEFGHIJKLMNOPQRSTUVWXYZ'')"

text \<open>
  A rule is a pattern with a tag or with \<open>None\<close>; tags are symbols, true in a condition.
  An unmatched character ends the process: the diagnostic names the character and the exit
  status is 1.
\<close>

type_synonym 'tag token_expr = "pattern \<times> 'tag option"

datatype lex_error = IllegalCharacter char

text \<open>
  The \<open>for\<close> loop over the rules: it leaves with \<open>break\<close> at the first rule whose
  pattern matches, after appending the token when the rule has a tag. It returns the match
  (its end offset) and the token list.
\<close>

fun for_token_exprs ::
  "string \<Rightarrow> nat \<Rightarrow> 'tag token list \<Rightarrow> 'tag token_expr list \<Rightarrow> nat option \<times> 'tag token list"
where
  "for_token_exprs characters pos tokens [] = (None, tokens)"
| "for_token_exprs characters pos tokens ((pattern, tag) # rest) =
     (case pattern characters pos of
        Some e \<Rightarrow>
          (Some e,
           case tag of
             Some t \<Rightarrow> tokens @ [(slice characters pos e, t)]
           | None \<Rightarrow> tokens)
      | None \<Rightarrow> for_token_exprs characters pos tokens rest)"

text \<open>
  The \<open>while pos < len(characters)\<close> loop. A pattern that matches the empty text leaves
  the cursor where it is, so the loop need not end: \<open>None\<close> is a run that never returns.
\<close>

partial_function (option) lexer_loop ::
  "string \<Rightarrow> 'tag token_expr list \<Rightarrow> nat \<Rightarrow> 'tag token list \<Rightarrow> (lex_error + 'tag token list) option"
where
  "lexer_loop characters token_exprs pos tokens =
     (if pos < length characters then
        (case for_token_exprs characters pos tokens token_exprs of
           (None, tokens') \<Rightarrow> Some (Inl (IllegalCharacter (characters ! pos)))
         | (Some e, tokens') \<Rightarrow> lexer_loop characters token_exprs e tokens')
      else Some (Inr tokens))"

definition lexer :: "string \<Rightarrow> 'tag token_expr list \<Rightarrow> (lex_error + 'tag token list) option" where
  "lexer characters token_exprs = lexer_loop characters token_exprs 0 []"

section \<open>Notions used to state the properties\<close>

subsection \<open>The node model of the spec\<close>

text \<open>
  The spec's data model of AST nodes, as closed types: this is the spec's reading of what a
  node is, to be compared with the instances the constructors of \<open>ast.py\<close> build. The
  false branch of a conditional may be absent, which in Python is \<open>None\<close>. Structural
  equality of the spec (same variant, all fields equal, recursively) is equality of these
  types.
\<close>

datatype spec_aexp = IntLit int | VarRef string | BinOp string spec_aexp spec_aexp

datatype spec_bexp =
    RelopB string spec_aexp spec_aexp
  | AndB spec_bexp spec_bexp
  | OrB spec_bexp spec_bexp
  | NotB spec_bexp

datatype spec_stmt =
    Assign string spec_aexp
  | Compound spec_stmt spec_stmt
  | Cond spec_bexp spec_stmt "spec_stmt option"
  | While spec_bexp spec_stmt

fun aexp_obj :: "spec_aexp \<Rightarrow> pyval" where
  "aexp_obj (IntLit i) = IntAexp (PInt i)"
| "aexp_obj (VarRef name) = VarAexp (PStr name)"
| "aexp_obj (BinOp op l r) = BinopAexp (PStr op) (aexp_obj l) (aexp_obj r)"

fun bexp_obj :: "spec_bexp \<Rightarrow> pyval" where
  "bexp_obj (RelopB op l r) = RelopBexp (PStr op) (aexp_obj l) (aexp_obj r)"
| "bexp_obj (AndB l r) = AndBexp (bexp_obj l) (bexp_obj r)"
| "bexp_obj (OrB l r) = OrBexp (bexp_obj l) (bexp_obj r)"
| "bexp_obj (NotB e) = NotBexp (bexp_obj e)"

fun stmt_obj :: "spec_stmt \<Rightarrow> pyval" where
  "stmt_obj (Assign name a) = AssignmentStatement (PStr name) (aexp_obj a)"
| "stmt_obj (Compound s1 s2) = CompoundStatement (stmt_obj s1) (stmt_obj s2)"
| "stmt_obj (Cond c t None) = IfStatement (bexp_obj c) (stmt_obj t) PNone"
| "stmt_obj (Cond c t (Some f)) = IfStatement (bexp_obj c) (stmt_obj t) (stmt_obj f)"
| "stmt_obj (While c b) = WhileStatement (bexp_obj c) (stmt_obj b)"

subsection \<open>Runs of the repetition loop\<close>

text \<open>
  \<open>reps p tokens pos vs pos'\<close>: applied at \<open>pos\<close> and then at each resulting position,
  \<open>p\<close> succeeds with the values \<open>vs\<close>, in this order, and then fails at \<open>pos'\<close>.
\<close>

inductive reps :: "'tag parser \<Rightarrow> 'tag token list \<Rightarrow> pyval \<Rightarrow> pyval list \<Rightarrow> pyval \<Rightarrow> bool"
  for p tokens where
  reps_stop: "p tokens pos = Some (Inr None) \<Longrightarrow> reps p tokens pos [] pos"
| reps_more: "p tokens pos = Some (Inr (Some r)) \<Longrightarrow> reps p tokens (res_pos r) vs pos'
     \<Longrightarrow> reps p tokens pos (res_value r # vs) pos'"

subsection \<open>Accepted matches of the lexer\<close>

text \<open>
  The first rule in table order whose pattern matches at the cursor, as the end offset of
  its match and its tag. An accepted match is a triple of start offset, end offset and the
  tag of the rule; \<open>emit\<close> is what it adds to the token list.
\<close>

definition first_match :: "string \<Rightarrow> nat \<Rightarrow> 'tag token_expr list \<Rightarrow> (nat \<times> 'tag option) option" where
  "first_match characters pos token_exprs =
     (case find (\<lambda>(pattern, tag). pattern characters pos \<noteq> None) token_exprs of
        None \<Rightarrow> None
      | Some (pattern, tag) \<Rightarrow> map_option (\<lambda>e. (e, tag)) (pattern characters pos))"

definition emit :: "string \<Rightarrow> nat \<times> nat \<times> 'tag option \<Rightarrow> 'tag token list" where
  "emit characters m =
     (case m of (start, stop, tag) \<Rightarrow>
        (case tag of Some t \<Rightarrow> [(slice characters start stop, t)] | None \<Rightarrow> []))"

text \<open>
  \<open>lex_run characters token_exprs pos ms\<close>: from the cursor \<open>pos\<close> the loop accepts the
  matches \<open>ms\<close>, in this order, and then leaves the loop.
\<close>

inductive lex_run ::
  "string \<Rightarrow> 'tag token_expr list \<Rightarrow> nat \<Rightarrow> (nat \<times> nat \<times> 'tag option) list \<Rightarrow> bool"
  for characters token_exprs where
  lex_done: "\<not> pos < length characters \<Longrightarrow> lex_run characters token_exprs pos []"
| lex_step: "pos < length characters \<Longrightarrow> first_match characters pos token_exprs = Some (e, tag)
     \<Longrightarrow> lex_run characters token_exprs e ms
     \<Longrightarrow> lex_run characters token_exprs pos ((pos, e, tag) # ms)"

text \<open>
  \<open>chained pos ms\<close>: the first match starts at \<open>pos\<close> and each later one where the one
  before it ended. \<open>consecutive pos ms stop\<close>: moreover no match ends before it starts,
  and the last one ends at \<open>stop\<close>.
\<close>

fun chained :: "nat \<Rightarrow> (nat \<times> nat \<times> 'a) list \<Rightarrow> bool" where
  "chained pos [] = True"
| "chained pos ((s, e, x) # ms) = (s = pos \<and> chained e ms)"

fun consecutive :: "nat \<Rightarrow> (nat \<times> nat \<times> 'a) list \<Rightarrow> nat \<Rightarrow> bool" where
  "consecutive pos [] stop = (pos = stop)"
| "consecutive pos ((s, e, x) # ms) stop = (s = pos \<and> s \<le> e \<and> consecutive e ms stop)"

section \<open>Properties of the combinators\<close>

subsection \<open>Sequence\<close>

lemma Concat_left_fails:
  "left tokens pos = Some (Inr None) \<Longrightarrow> Concat left right tokens pos = Some (Inr None)"
  by (simp add: Concat_def)

lemma Concat_right_fails:
  "left tokens pos = Some (Inr (Some l)) \<Longrightarrow> right tokens (res_pos l) = Some (Inr None)
   \<Longrightarrow> Concat left right tokens pos = Some (Inr None)"
  by (simp add: Concat_def)

lemma Concat_both_succeed:
  "left tokens pos = Some (Inr (Some l)) \<Longrightarrow> right tokens (res_pos l) = Some (Inr (Some r))
   \<Longrightarrow> Concat left right tokens pos
       = Some (Inr (Some (Result (PTuple [res_value l, res_value r]) (res_value r))))"
  by (simp add: Concat_def)

text \<open>
  C1. On the spec's own example, \<open>concat(reserved("a", R), reserved("b", R))\<close> applied to
  the tokens \<open>[("a", R), ("b", R)]\<close> at position 0, both parsers succeed and the right
  one ends at position 2, and the sequence succeeds with the pair of values; but the
  position of its result is the right parser's value, the string \<open>"b"\<close>, not 2.
\<close>

theorem Concat_position_is_right_value:
  "Reserved ''a'' R [(''a'', R), (''b'', R)] (PInt 0)
     = Some (Inr (Some (Result (PStr ''a'') (PInt 1))))
   \<and> Reserved ''b'' R [(''a'', R), (''b'', R)] (PInt 1)
     = Some (Inr (Some (Result (PStr ''b'') (PInt 2))))
   \<and> Concat (Reserved ''a'' R) (Reserved ''b'' R) [(''a'', R), (''b'', R)] (PInt 0)
     = Some (Inr (Some (Result (PTuple [PStr ''a'', PStr ''b'']) (PStr ''b''))))"
  by (simp add: Concat_def Reserved_def py_getitem_def)

subsection \<open>Repetition\<close>

lemma reps_Rep_loop:
  "reps p tokens pos vs pos' \<Longrightarrow>
   Rep_loop p tokens results pos = Some (Inr (Some (Result (PList (results @ vs)) pos')))"
proof (induction arbitrary: results rule: reps.induct)
  case (reps_stop pos)
  then show ?case by (subst Rep_loop.simps) simp
next
  case (reps_more pos r vs pos')
  from reps_more(3)[of "results @ [res_value r]"] reps_more(1)
  show ?case by (subst Rep_loop.simps) simp
qed

lemma Rep_loop_reps:
  "Rep_loop p tokens results pos = Some y \<Longrightarrow>
   y \<noteq> Inr None \<and>
   (\<forall>r. y = Inr (Some r) \<longrightarrow>
      (\<exists>vs pos'. r = Result (PList (results @ vs)) pos' \<and> reps p tokens pos vs pos'))"
proof (induction p tokens results pos y
    rule: Rep_loop.raw_induct[rotated 1, consumes 1, case_names step])
  case (step loop p tokens results pos y)
  show ?case
  proof (cases "p tokens pos")
    case None
    with step(2) show ?thesis by simp
  next
    case (Some a)
    show ?thesis
    proof (cases a)
      case (Inl e)
      with Some step(2) show ?thesis by auto
    next
      case (Inr ro)
      show ?thesis
      proof (cases ro)
        case None
        with Some Inr step(2) have y: "y = Inr (Some (Result (PList results) pos))" by simp
        have "reps p tokens pos [] pos" using Some Inr None by (auto intro: reps_stop)
        with y show ?thesis by auto
      next
        case (Some r)
        with \<open>p tokens pos = Some a\<close> Inr step(2)
        have rec: "loop p tokens (results @ [res_value r]) (res_pos r) = Some y" by simp
        from step(1)[OF rec] have ih1: "y \<noteq> Inr None"
          and ih2: "\<forall>r'. y = Inr (Some r') \<longrightarrow>
            (\<exists>vs pos'. r' = Result (PList ((results @ [res_value r]) @ vs)) pos'
               \<and> reps p tokens (res_pos r) vs pos')" by auto
        have pr: "p tokens pos = Some (Inr (Some r))"
          using \<open>p tokens pos = Some a\<close> Inr Some by simp
        have "\<forall>r'. y = Inr (Some r') \<longrightarrow>
            (\<exists>vs pos'. r' = Result (PList (results @ vs)) pos' \<and> reps p tokens pos vs pos')"
        proof (intro allI impI)
          fix r' assume "y = Inr (Some r')"
          with ih2 obtain vs pos'
            where v: "r' = Result (PList ((results @ [res_value r]) @ vs)) pos'"
              "reps p tokens (res_pos r) vs pos'" by blast
          have "reps p tokens pos (res_value r # vs) pos'" using pr v(2) by (rule reps_more)
          with v(1)
          show "\<exists>vs pos'. r' = Result (PList (results @ vs)) pos' \<and> reps p tokens pos vs pos'"
            by (intro exI[of _ "res_value r # vs"] exI[of _ pos']) simp
        qed
        with ih1 show ?thesis by simp
      qed
    qed
  qed
qed

text \<open>
  C7, as the code has it. \<open>Rep(p)\<close> never returns failure. It returns a result exactly
  when \<open>p\<close>, applied at the position and then at each resulting position, succeeds some
  number of times and then fails; the result is the list of the values in order, at the
  position where \<open>p\<close> failed. In particular, when \<open>p\<close> fails at the first attempt the
  result is the empty list at the original position.
\<close>

theorem Rep_returns:
  "Rep p tokens pos \<noteq> Some (Inr None)
   \<and> (Rep p tokens pos = Some (Inr (Some r))
        \<longleftrightarrow> (\<exists>vs pos'. r = Result (PList vs) pos' \<and> reps p tokens pos vs pos'))
   \<and> (p tokens pos = Some (Inr None)
        \<longrightarrow> Rep p tokens pos = Some (Inr (Some (Result (PList []) pos))))"
proof (intro conjI)
  show "Rep p tokens pos \<noteq> Some (Inr None)"
    using Rep_loop_reps[of p tokens "[]" pos "Inr None"] by (auto simp: Rep_def)
  show "Rep p tokens pos = Some (Inr (Some r))
        \<longleftrightarrow> (\<exists>vs pos'. r = Result (PList vs) pos' \<and> reps p tokens pos vs pos')"
    using Rep_loop_reps[of p tokens "[]" pos "Inr (Some r)"] reps_Rep_loop[of p tokens pos _ _ "[]"]
    by (auto simp: Rep_def)
  show "p tokens pos = Some (Inr None)
        \<longrightarrow> Rep p tokens pos = Some (Inr (Some (Result (PList []) pos)))"
    using reps_Rep_loop[of p tokens pos "[]" pos "[]"] by (auto simp: Rep_def intro: reps_stop)
qed

theorem Rep_returns_witness:
  "Rep (Tag INT_tag) [(''1'', INT_tag), (''a'', ID_tag)] (PInt 0)
     = Some (Inr (Some (Result (PList [PStr ''1'']) (PInt 1))))
   \<and> Rep (Tag INT_tag) [(''a'', ID_tag)] (PInt 0) = Some (Inr (Some (Result (PList []) (PInt 0))))"
proof -
  let ?t = "[(''1'', INT_tag), (''a'', ID_tag)]"
  have s1: "Tag INT_tag ?t (PInt 0) = Some (Inr (Some (Result (PStr ''1'') (PInt 1))))"
    by (simp add: Tag_def py_getitem_def)
  have s2: "Tag INT_tag ?t (PInt 1) = Some (Inr None)"
    by (simp add: Tag_def py_getitem_def)
  have "reps (Tag INT_tag) ?t (PInt 1) [] (PInt 1)" using s2 by (rule reps_stop)
  with s1 have "reps (Tag INT_tag) ?t (PInt 0) [PStr ''1''] (PInt 1)"
    using reps_more[of "Tag INT_tag" ?t "PInt 0" "Result (PStr ''1'') (PInt 1)" "[]" "PInt 1"]
    by simp
  then have a: "Rep (Tag INT_tag) ?t (PInt 0)
      = Some (Inr (Some (Result (PList [PStr ''1'']) (PInt 1))))"
    using Rep_returns[of "Tag INT_tag" ?t "PInt 0" "Result (PList [PStr ''1'']) (PInt 1)"]
    by blast
  have "Tag INT_tag [(''a'', ID_tag)] (PInt 0) = Some (Inr None)"
    by (simp add: Tag_def py_getitem_def)
  then have b: "Rep (Tag INT_tag) [(''a'', ID_tag)] (PInt 0)
      = Some (Inr (Some (Result (PList []) (PInt 0))))"
    using Rep_returns[of "Tag INT_tag" "[(''a'', ID_tag)]" "PInt 0"] by blast
  from a b show ?thesis by simp
qed

text \<open>
  \<open>Tag\<close> and \<open>Reserved\<close> index the token list before their bounds check is looked
  at, so at the end of the list they raise instead of failing, and a repetition that reaches
  the end of the list raises with them.
\<close>

lemma Tag_at_end_raises: "Tag tg tokens (PInt (int (length tokens))) = Some (Inl IndexError)"
  by (simp add: Tag_def py_getitem_def)

lemma Reserved_at_end_raises:
  "Reserved v tg tokens (PInt (int (length tokens))) = Some (Inl IndexError)"
  by (simp add: Reserved_def py_getitem_def)

lemma Rep_Tag_to_the_end_raises:
  "Rep (Tag INT_tag) [] (PInt 0) = Some (Inl IndexError)
   \<and> Rep (Tag INT_tag) [(''1'', INT_tag), (''2'', INT_tag)] (PInt 0) = Some (Inl IndexError)"
  by (simp add: Rep_def Rep_loop.simps Tag_def py_getitem_def)

text \<open>
  A parser that succeeds without moving keeps the loop going for ever:
  \<open>Opt(Tag(INT))\<close> on the one token \<open>("a", ID)\<close> succeeds at position 0 with \<open>None\<close>
  and position 0, again and again.
\<close>

lemma Rep_loop_never:
  "Rep_loop p tokens results pos = Some y \<Longrightarrow>
   \<not> (p = Opt (Tag INT_tag) \<and> tokens = [(''a'', ID_tag)] \<and> pos = PInt 0)"
proof (induction p tokens results pos y
    rule: Rep_loop.raw_induct[rotated 1, consumes 1, case_names step])
  case (step loop p tokens results pos y)
  show ?case
  proof
    assume a: "p = Opt (Tag INT_tag) \<and> tokens = [(''a'', ID_tag)] \<and> pos = PInt 0"
    then have "p tokens pos = Some (Inr (Some (Result PNone (PInt 0))))"
      by (simp add: Opt_def Tag_def py_getitem_def)
    with step(2) have "loop p tokens (results @ [PNone]) (PInt 0) = Some y" by simp
    from step(1)[OF this] a show False by simp
  qed
qed

text \<open>
  C7, as the claim states it, fails: \<open>Rep(Opt(Tag(INT)))\<close> applied to the token list
  \<open>[("a", ID)]\<close> at position 0 does not return, so it does not succeed.
\<close>

theorem Rep_does_not_return:
  "Rep (Opt (Tag INT_tag)) [(''a'', ID_tag)] (PInt 0) = None"
proof (cases "Rep (Opt (Tag INT_tag)) [(''a'', ID_tag)] (PInt 0)")
  case None
  then show ?thesis .
next
  case (Some y)
  then show ?thesis
    using Rep_loop_never[of "Opt (Tag INT_tag)" "[(''a'', ID_tag)]" "[]" "PInt 0" y]
    by (simp add: Rep_def)
qed

subsection \<open>Full consumption\<close>

lemma py_eq_PInt:
  "py_eq v (PInt n) =
     (case v of PInt a \<Rightarrow> Inr (a = n) | PObj c d \<Rightarrow> Inl AttributeError | _ \<Rightarrow> Inr False)"
  by (cases v) auto

text \<open>
  What \<open>Phrase\<close> does when the position its parser returns is an index: it succeeds with
  the parser's result exactly when the parser succeeds with that result at the length of
  the token list; it fails when the parser fails and when the parser succeeds at another
  index.
\<close>

lemma Phrase_cases:
  "(Phrase p tokens pos = Some (Inr (Some r))
      \<longleftrightarrow> p tokens pos = Some (Inr (Some r)) \<and> res_pos r = PInt (int (length tokens)))
   \<and> (p tokens pos = Some (Inr None) \<longrightarrow> Phrase p tokens pos = Some (Inr None))
   \<and> (p tokens pos = Some (Inr (Some r)) \<and> res_pos r = PInt k \<and> k \<noteq> int (length tokens)
        \<longrightarrow> Phrase p tokens pos = Some (Inr None))"
  by (auto simp: Phrase_def py_eq_PInt split: option.splits sum.splits if_splits pyval.splits)

lemma Phrase_Tag_examples:
  "Phrase (Tag INT_tag) [(''1'', INT_tag)] (PInt 0)
     = Some (Inr (Some (Result (PStr ''1'') (PInt 1))))
   \<and> Phrase (Tag INT_tag) [(''x'', ID_tag)] (PInt 0) = Some (Inr None)
   \<and> Phrase (Tag INT_tag) [(''1'', INT_tag), (''2'', INT_tag)] (PInt 0) = Some (Inr None)"
  by (simp add: Phrase_def Tag_def py_getitem_def)

text \<open>
  C8. The sequence of an integer token and a value term, applied at position 0 to the two
  tokens \<open>("1", INT)\<close> and \<open>("2", INT)\<close>, succeeds, having read both tokens, and the
  position of its result is the node \<open>IntAexp(2)\<close>. \<open>Phrase\<close> of this parser then
  compares the node with the length 2, which raises \<open>AttributeError\<close>: \<open>Phrase\<close>
  neither succeeds nor fails.
\<close>

theorem Phrase_raises_on_node_position:
  "Concat (Tag INT_tag) aexp_value [(''1'', INT_tag), (''2'', INT_tag)] (PInt 0)
     = Some (Inr (Some (Result (PTuple [PStr ''1'', IntAexp (PInt 2)]) (IntAexp (PInt 2)))))
   \<and> Phrase (Concat (Tag INT_tag) aexp_value) [(''1'', INT_tag), (''2'', INT_tag)] (PInt 0)
     = Some (Inl AttributeError)"
  by (simp add: Phrase_def Concat_def Tag_def py_getitem_def aexp_value_def num_def id_parser_def
      Process_def Alternate_def strip_def is_space_def int_of_digits_def is_digit_def
      digits_value_def IntAexp_def)

subsection \<open>Deferred reference\<close>

lemma Lazy_calls_cached:
  "parser self = Some p \<Longrightarrow>
   Lazy_calls self inputs w = (map (\<lambda>(tokens, pos). p tokens pos) inputs, self, w)"
  by (induction inputs) (auto simp: Lazy_call_def)

text \<open>
  C10. Applying a fresh \<open>Lazy(f)\<close> any number of times: every application gives the
  outcome of applying the parser that \<open>f()\<close> returned, on the same token list and position;
  with no application the producer has not run (the world is unchanged and nothing is
  cached); with one or more it has run exactly once, at the first application (the world
  is the one a single call of the producer leaves) and its parser is cached. As a parser,
  \<open>Lazy(g)\<close> for a pure producer \<open>g\<close> is \<open>g()\<close>.
\<close>

theorem Lazy_resolves_once:
  "Lazy_calls (Lazy_init f) inputs w =
     (map (\<lambda>(tokens, pos). fst (f w) tokens pos) inputs,
      (if inputs = [] then Lazy_init f else (Lazy_init f)\<lparr>parser := Some (fst (f w))\<rparr>),
      (if inputs = [] then w else snd (f w)))
   \<and> Lazy g tokens pos = g () tokens pos"
proof
  show "Lazy g tokens pos = g () tokens pos"
    by (simp add: Lazy_def Lazy_call_def Lazy_init_def)
  show "Lazy_calls (Lazy_init f) inputs w =
     (map (\<lambda>(tokens, pos). fst (f w) tokens pos) inputs,
      (if inputs = [] then Lazy_init f else (Lazy_init f)\<lparr>parser := Some (fst (f w))\<rparr>),
      (if inputs = [] then w else snd (f w)))"
  proof (cases inputs)
    case Nil
    then show ?thesis by simp
  next
    case (Cons a rest)
    obtain tokens pos where a: "a = (tokens, pos)" by (cases a)
    obtain p w' where f: "f w = (p, w')" by (cases "f w")
    have "Lazy_call (Lazy_init f) tokens pos w
        = (p tokens pos, (Lazy_init f)\<lparr>parser := Some p\<rparr>, w')"
      using f by (simp add: Lazy_call_def Lazy_init_def)
    moreover have "Lazy_calls ((Lazy_init f)\<lparr>parser := Some p\<rparr>) rest w'
      = (map (\<lambda>(tokens, pos). p tokens pos) rest, (Lazy_init f)\<lparr>parser := Some p\<rparr>, w')"
      by (rule Lazy_calls_cached) simp
    ultimately show ?thesis using Cons a f by simp
  qed
qed

text \<open>
  A producer that counts its calls: after three applications the count is one.
\<close>

theorem Lazy_resolves_once_witness:
  "Lazy_calls (Lazy_init (\<lambda>n::nat. (Tag INT_tag, Suc n)))
      [([(''1'', INT_tag)], PInt 0), ([(''1'', INT_tag)], PInt 0), ([(''x'', ID_tag)], PInt 0)] 0
   = ([Some (Inr (Some (Result (PStr ''1'') (PInt 1)))),
       Some (Inr (Some (Result (PStr ''1'') (PInt 1)))),
       Some (Inr None)],
      (Lazy_init (\<lambda>n::nat. (Tag INT_tag, Suc n)))\<lparr>parser := Some (Tag INT_tag)\<rparr>,
      Suc 0)"
proof -
  have "Lazy_calls (Lazy_init (\<lambda>n::nat. (Tag INT_tag, Suc n)))
      [([(''1'', INT_tag)], PInt 0), ([(''1'', INT_tag)], PInt 0), ([(''x'', ID_tag)], PInt 0)] 0
    = (map (\<lambda>(tokens, pos). fst (Tag INT_tag, Suc 0) tokens pos)
         [([(''1'', INT_tag)], PInt 0), ([(''1'', INT_tag)], PInt 0), ([(''x'', ID_tag)], PInt 0)],
       (if [([(''1'', INT_tag)], PInt 0), ([(''1'', INT_tag)], PInt 0), ([(''x'', ID_tag)], PInt 0)] = []
        then Lazy_init (\<lambda>n::nat. (Tag INT_tag, Suc n))
        else (Lazy_init (\<lambda>n::nat. (Tag INT_tag, Suc n)))\<lparr>parser := Some (fst (Tag INT_tag, Suc 0))\<rparr>),
       (if [([(''1'', INT_tag)], PInt 0), ([(''1'', INT_tag)], PInt 0), ([(''x'', ID_tag)], PInt 0)] = []
        then 0 else snd (Tag INT_tag, Suc 0)))"
    by (rule Lazy_resolves_once[THEN conjunct1])
  also have "\<dots> = ([Some (Inr (Some (Result (PStr ''1'') (PInt 1)))),
       Some (Inr (Some (Result (PStr ''1'') (PInt 1)))),
       Some (Inr None)],
      (Lazy_init (\<lambda>n::nat. (Tag INT_tag, Suc n)))\<lparr>parser := Some (Tag INT_tag)\<rparr>,
      Suc 0)"
    by (simp add: Tag_def py_getitem_def)
  finally show ?thesis .
qed

section \<open>Properties of the grammar\<close>

lemmas grammar_defs = apply_built_def precedence_def aexp_precedence_list_def op_parser_def
  any_op_in_list_def keyword_def aexp_term_def aexp_value_def aexp_group_def num_def id_parser_def
  process_binop_def

lemmas combinator_defs = Exp_def Process_def Concat_def Alternate_def Reserved_def Tag_def
  py_getitem_def process_next_def

lemmas int_defs = strip_def is_space_def int_of_digits_def is_digit_def digits_value_def

text \<open>
  What goes wrong, step by step, on \<open>3 * 4\<close>: the term parser reads \<open>4\<close> and ends at
  position 5; the sequence of the operator and the term returns the node for 4 as its
  position; and an operator parser applied at a node raises \<open>TypeError\<close>, since a node
  is not a list index.
\<close>

lemma Concat_operator_term_position:
  "Concat (Process (Reserved ''*'' RESERVED_tag) process_binop) aexp_value
     [(''3'', INT_tag), (''*'', RESERVED_tag), (''4'', INT_tag)] (PInt 1)
   = Some (Inr (Some (Result (PTuple [PBinopFn (PStr ''*''), IntAexp (PInt 4)]) (IntAexp (PInt 4)))))"
  by (simp add: grammar_defs combinator_defs int_defs)

lemma Reserved_at_node: "Reserved v tg tokens (PObj c d) = Some (Inl TypeError)"
  by (simp add: Reserved_def py_getitem_def)

text \<open>
  C2. The parser built by \<open>precedence(aexp_term(), [['*', '/'], ['+', '-']], process_binop)\<close>,
  whatever the producer \<open>aexp\<close> behind the grouped term is, applied at position 0 to the
  token list of \<open>2 + 3 * 4\<close> raises \<open>TypeError\<close>, and so it does on the token list of
  \<open>2 - 3 - 4\<close>: it succeeds on neither.
\<close>

theorem precedence_raises_TypeError:
  "apply_built (precedence (aexp_term aexp) aexp_precedence_list process_binop)
     [(''2'', INT_tag), (''+'', RESERVED_tag), (''3'', INT_tag), (''*'', RESERVED_tag),
      (''4'', INT_tag)] (PInt 0)
   = Some (Inl TypeError)
   \<and> apply_built (precedence (aexp_term aexp) aexp_precedence_list process_binop)
     [(''2'', INT_tag), (''-'', RESERVED_tag), (''3'', INT_tag), (''-'', RESERVED_tag),
      (''4'', INT_tag)] (PInt 0)
   = Some (Inl TypeError)"
  by (simp add: grammar_defs combinator_defs int_defs Exp_loop.simps IntAexp_def BinopAexp_def)

section \<open>Properties of structural equality\<close>

lemmas node_defs = IntAexp_def VarAexp_def BinopAexp_def RelopBexp_def AndBexp_def OrBexp_def
  NotBexp_def AssignmentStatement_def CompoundStatement_def IfStatement_def WhileStatement_def

text \<open>
  On arithmetic and boolean expressions \<open>__eq__\<close> returns, and it is the structural
  equality of the spec.
\<close>

lemma py_eq_aexp: "py_eq (aexp_obj a) (aexp_obj b) = Inr (a = b)"
proof (induction a arbitrary: b)
  case (IntLit i)
  then show ?case by (cases b) (auto simp: node_defs)
next
  case (VarRef n)
  then show ?case by (cases b) (auto simp: node_defs)
next
  case (BinOp op l r)
  then show ?case by (cases b) (auto simp: node_defs)
qed

lemma py_eq_bexp: "py_eq (bexp_obj a) (bexp_obj b) = Inr (a = b)"
proof (induction a arbitrary: b)
  case (RelopB op l r)
  then show ?case using py_eq_aexp by (cases b) (auto simp: node_defs)
next
  case (AndB l r)
  then show ?case by (cases b) (auto simp: node_defs)
next
  case (OrB l r)
  then show ?case by (cases b) (auto simp: node_defs)
next
  case (NotB e)
  then show ?case by (cases b) (auto simp: node_defs)
qed

lemma stmt_obj_PObj: "\<exists>c d. stmt_obj s = PObj c d"
  by (cases s rule: stmt_obj.cases) (auto simp: node_defs)

lemma py_eq_stmt_refl: "py_eq (stmt_obj s) (stmt_obj s) = Inr True"
  by (induction s rule: stmt_obj.induct) (auto simp: node_defs py_eq_aexp py_eq_bexp)

text \<open>
  The scan reaches the false branch before the condition: a conditional without a false
  branch compared with one that has one raises also when the conditions differ.
\<close>

lemma py_eq_absent_branch_before_condition:
  "py_eq (stmt_obj (Cond c1 t None)) (stmt_obj (Cond c2 t (Some f))) = Inl AttributeError"
  using stmt_obj_PObj[of f] py_eq_stmt_refl[of t]
  by (auto simp: IfStatement_def)

text \<open>
  C3. Comparing an instance of any class with \<open>None\<close>, an integer, a string, a tuple or a
  list raises \<open>AttributeError\<close>, in particular \<open>IntAexp(1) == 5\<close>: the comparison of the
  dictionaries is evaluated before \<open>all\<close> sees that \<open>isinstance\<close> gave false.
\<close>

theorem Equality_eq_raises_on_other_types:
  "py_eq (PObj c d) PNone = Inl AttributeError
   \<and> py_eq (PObj c d) (PInt n) = Inl AttributeError
   \<and> py_eq (PObj c d) (PStr s) = Inl AttributeError
   \<and> py_eq (PObj c d) (PTuple xs) = Inl AttributeError
   \<and> py_eq (PObj c d) (PList xs) = Inl AttributeError
   \<and> py_eq (IntAexp (PInt 1)) (PInt 5) = Inl AttributeError"
  by (simp add: IntAexp_def)

text \<open>
  C4. Two conditionals with the same condition and the same true branch, one without a
  false branch and one with: the variant is the same and one field differs, and the
  comparison raises \<open>AttributeError\<close>, in either order, instead of returning false.
\<close>

theorem Equality_eq_raises_on_absent_branch:
  "py_eq (stmt_obj (Cond c t None)) (stmt_obj (Cond c t (Some f))) = Inl AttributeError
   \<and> py_eq (stmt_obj (Cond c t (Some f))) (stmt_obj (Cond c t None)) = Inl AttributeError"
  using stmt_obj_PObj[of f] py_eq_bexp[of c c] py_eq_stmt_refl[of t]
  by (auto simp: IfStatement_def)

section \<open>Properties of the lexer\<close>

lemma for_token_exprs_first_match:
  "for_token_exprs characters pos tokens token_exprs =
     (case first_match characters pos token_exprs of
        None \<Rightarrow> (None, tokens)
      | Some (e, tag) \<Rightarrow> (Some e, tokens @ emit characters (pos, e, tag)))"
  by (induction token_exprs) (auto simp: first_match_def emit_def split: option.splits)

lemma lexer_loop_step:
  "pos < length characters \<Longrightarrow>
   lexer_loop characters token_exprs pos tokens =
     (case first_match characters pos token_exprs of
        None \<Rightarrow> Some (Inl (IllegalCharacter (characters ! pos)))
      | Some (e, tag) \<Rightarrow>
          lexer_loop characters token_exprs e (tokens @ emit characters (pos, e, tag)))"
  by (subst lexer_loop.simps) (simp add: for_token_exprs_first_match split: option.splits)

lemma first_match_Cons_None:
  "m characters pos = None \<Longrightarrow>
   first_match characters pos ((m, t) # rs) = first_match characters pos rs"
  by (simp add: first_match_def)

lemma first_match_Cons_Some:
  "m characters pos = Some e \<Longrightarrow> first_match characters pos ((m, t) # rs) = Some (e, t)"
  by (simp add: first_match_def)

lemma first_match_index:
  "first_match characters pos token_exprs = Some (e, tag) \<longleftrightarrow>
   (\<exists>i<length token_exprs. fst (token_exprs ! i) characters pos = Some e
      \<and> snd (token_exprs ! i) = tag
      \<and> (\<forall>j<i. fst (token_exprs ! j) characters pos = None))"
  (is "?L token_exprs \<longleftrightarrow> ?R token_exprs")
proof (induction token_exprs)
  case Nil
  then show ?case by (simp add: first_match_def)
next
  case (Cons r rs)
  obtain m t where r: "r = (m, t)" by (cases r)
  show ?case
  proof (cases "m characters pos")
    case None
    have fm: "first_match characters pos (r # rs) = first_match characters pos rs"
      using None r by (simp add: first_match_Cons_None)
    show ?thesis
    proof
      assume "?L (r # rs)"
      with fm Cons obtain i where i: "i < length rs" "fst (rs ! i) characters pos = Some e"
        "snd (rs ! i) = tag" "\<forall>j<i. fst (rs ! j) characters pos = None" by auto
      have "\<forall>j<Suc i. fst ((r # rs) ! j) characters pos = None"
        using i(4) None r by (auto simp: less_Suc_eq_0_disj)
      with i show "?R (r # rs)" by (intro exI[of _ "Suc i"]) simp
    next
      assume "?R (r # rs)"
      then obtain i where i: "i < length (r # rs)" "fst ((r # rs) ! i) characters pos = Some e"
        "snd ((r # rs) ! i) = tag" "\<forall>j<i. fst ((r # rs) ! j) characters pos = None" by blast
      from i(2) None r obtain k where k: "i = Suc k" by (cases i) auto
      have "\<forall>j<k. fst (rs ! j) characters pos = None"
      proof (intro allI impI)
        fix j assume "j < k"
        then have "Suc j < i" using k by simp
        with i(4) have "fst ((r # rs) ! Suc j) characters pos = None" by blast
        then show "fst (rs ! j) characters pos = None" by simp
      qed
      with i k have "?R rs" by (intro exI[of _ k]) simp
      with Cons fm show "?L (r # rs)" by simp
    qed
  next
    case (Some e')
    have fm: "first_match characters pos (r # rs) = Some (e', t)"
      using Some r by (simp add: first_match_Cons_Some)
    show ?thesis
    proof
      assume "?L (r # rs)"
      with fm have "e = e'" "tag = t" by auto
      then show "?R (r # rs)" using Some r by (intro exI[of _ 0]) simp
    next
      assume "?R (r # rs)"
      then obtain i where i: "i < length (r # rs)" "fst ((r # rs) ! i) characters pos = Some e"
        "snd ((r # rs) ! i) = tag" "\<forall>j<i. fst ((r # rs) ! j) characters pos = None" by blast
      have "i = 0"
      proof (rule ccontr)
        assume "i \<noteq> 0"
        then have "0 < i" by simp
        with i(4) have "fst ((r # rs) ! 0) characters pos = None" by blast
        with Some r show False by simp
      qed
      with i Some r fm show "?L (r # rs)" by simp
    qed
  qed
qed

lemma lexer_loop_run:
  "lexer_loop characters token_exprs pos tokens = Some y \<Longrightarrow>
   (\<forall>out. y = Inr out \<longrightarrow>
     (\<exists>ms. lex_run characters token_exprs pos ms
          \<and> out = tokens @ concat (map (emit characters) ms)))"
proof (induction characters token_exprs pos tokens y
    rule: lexer_loop.raw_induct[rotated 1, consumes 1, case_names step])
  case (step loop characters token_exprs pos tokens y)
  show ?case
  proof (cases "pos < length characters")
    case False
    with step(2) have "y = Inr tokens" by simp
    moreover have "lex_run characters token_exprs pos []" using False by (rule lex_done)
    ultimately show ?thesis by auto
  next
    case True
    show ?thesis
    proof (cases "first_match characters pos token_exprs")
      case None
      with True step(2) show ?thesis by (auto simp: for_token_exprs_first_match)
    next
      case (Some a)
      obtain e tag where a: "a = (e, tag)" by (cases a)
      from True step(2) Some a
      have rec: "loop characters token_exprs e (tokens @ emit characters (pos, e, tag)) = Some y"
        by (simp add: for_token_exprs_first_match)
      show ?thesis
      proof (intro allI impI)
        fix out assume "y = Inr out"
        with step(1)[OF rec] obtain ms where ms: "lex_run characters token_exprs e ms"
          and out: "out = (tokens @ emit characters (pos, e, tag))
                          @ concat (map (emit characters) ms)"
          by blast
        have "lex_run characters token_exprs pos ((pos, e, tag) # ms)"
          using True Some a ms by (auto intro: lex_step)
        then show "\<exists>ms. lex_run characters token_exprs pos ms
                     \<and> out = tokens @ concat (map (emit characters) ms)"
          using out by (intro exI[of _ "(pos, e, tag) # ms"]) simp
      qed
    qed
  qed
qed

lemma lex_run_lexer_loop:
  "lex_run characters token_exprs pos ms \<Longrightarrow>
   lexer_loop characters token_exprs pos tokens
     = Some (Inr (tokens @ concat (map (emit characters) ms)))"
proof (induction arbitrary: tokens rule: lex_run.induct)
  case (lex_done pos)
  then show ?case by (subst lexer_loop.simps) simp
next
  case (lex_step pos e tag ms)
  from lex_step(4)[of "tokens @ emit characters (pos, e, tag)"] lex_step(1,2)
  show ?case by (simp add: lexer_loop_step)
qed

lemma lex_run_first_match:
  "lex_run characters token_exprs pos ms \<Longrightarrow> (s, e, tag) \<in> set ms \<Longrightarrow>
   first_match characters s token_exprs = Some (e, tag)"
  by (induction rule: lex_run.induct) auto

lemma lex_run_chained: "lex_run characters token_exprs pos ms \<Longrightarrow> chained pos ms"
  by (induction rule: lex_run.induct) auto

lemma first_match_ok:
  "\<forall>(pattern, tag) \<in> set token_exprs. pattern_ok pattern \<Longrightarrow> pos \<le> length characters \<Longrightarrow>
   first_match characters pos token_exprs = Some (e, tag) \<Longrightarrow> pos \<le> e \<and> e \<le> length characters"
proof (induction token_exprs)
  case Nil
  then show ?case by (simp add: first_match_def)
next
  case (Cons r rs)
  obtain m t where r: "r = (m, t)" by (cases r)
  show ?case
  proof (cases "m characters pos")
    case None
    with Cons r show ?thesis by (simp add: first_match_Cons_None)
  next
    case (Some e')
    with Cons(4) r have "e = e'" by (simp add: first_match_Cons_Some)
    moreover have "pattern_ok m" using Cons(2) r by simp
    ultimately show ?thesis using Some Cons(3) unfolding pattern_ok_def by blast
  qed
qed

lemma slice_drop:
  "pos \<le> e \<Longrightarrow> slice characters pos e @ drop e characters = drop pos characters"
proof -
  assume "pos \<le> e"
  then have "drop e characters = drop (e - pos) (drop pos characters)" by simp
  then show ?thesis unfolding slice_def by (metis append_take_drop_id)
qed

lemma lex_run_tiles:
  assumes ok: "\<forall>(pattern, tag) \<in> set token_exprs. pattern_ok pattern"
  shows "lex_run characters token_exprs pos ms \<Longrightarrow> pos \<le> length characters \<Longrightarrow>
    consecutive pos ms (length characters)
    \<and> concat (map (\<lambda>(s, e, tag). slice characters s e) ms) = drop pos characters"
proof (induction rule: lex_run.induct)
  case (lex_done pos)
  then show ?case by simp
next
  case (lex_step pos e tag ms)
  from first_match_ok[OF ok lex_step(5) lex_step(2)]
  have b: "pos \<le> e" "e \<le> length characters" by auto
  with lex_step have ih: "consecutive e ms (length characters)"
    "concat (map (\<lambda>(s, e, tag). slice characters s e) ms) = drop e characters" by auto
  from ih b slice_drop[OF b(1), of characters] show ?case by simp
qed

lemma consecutive_le: "consecutive pos ms stop \<Longrightarrow> pos \<le> stop"
proof (induction ms arbitrary: pos)
  case Nil
  then show ?case by simp
next
  case (Cons m ms)
  obtain s e x where m: "m = (s, e, x)" by (cases m)
  with Cons(2) have "s = pos" "s \<le> e" "consecutive e ms stop" by auto
  with Cons.IH[of e] show ?case by simp
qed

lemma consecutive_bounds:
  "consecutive pos ms stop \<Longrightarrow> (s, e, x) \<in> set ms \<Longrightarrow> pos \<le> s \<and> s \<le> e \<and> e \<le> stop"
proof (induction ms arbitrary: pos)
  case Nil
  then show ?case by simp
next
  case (Cons m ms)
  obtain s' e' x' where m: "m = (s', e', x')" by (cases m)
  from Cons(2) m have h: "s' = pos" "s' \<le> e'" "consecutive e' ms stop" by auto
  show ?case
  proof (cases "(s, e, x) = m")
    case True
    with m h consecutive_le[OF h(3)] show ?thesis by simp
  next
    case False
    with Cons(3) have "(s, e, x) \<in> set ms" by simp
    from Cons.IH[OF h(3) this] h show ?thesis by simp
  qed
qed

lemma emit_texts:
  "(text, t) \<in> set (concat (map (emit characters) ms)) \<Longrightarrow>
   \<exists>s e. (s, e, Some t) \<in> set ms \<and> text = slice characters s e"
  by (induction ms) (auto simp: emit_def split: option.splits)

lemma pattern_ok_re_literal: "pattern_ok (re_literal s)"
proof -
  have "pos + length s \<le> length characters"
    if "take (length s) (drop pos characters) = s" "pos \<le> length characters"
    for characters :: string and pos
  proof -
    from that(1) have "length (take (length s) (drop pos characters)) = length s" by simp
    then have "length s \<le> length characters - pos" by simp
    with that(2) show ?thesis by simp
  qed
  then show ?thesis by (auto simp: pattern_ok_def re_literal_def split: if_splits)
qed

lemma pattern_ok_re_class_plus: "pattern_ok (re_class_plus P)"
proof -
  have "pos + length (takeWhile P (drop pos characters)) \<le> length characters"
    if "pos \<le> length characters" for characters :: string and pos
  proof -
    have "length (takeWhile P (drop pos characters)) \<le> length (drop pos characters)"
      by (rule length_takeWhile_le)
    with that show ?thesis by simp
  qed
  then show ?thesis by (auto simp: pattern_ok_def re_class_plus_def Let_def split: if_splits)
qed

text \<open>
  C5. The lexer is the loop started at offset 0 with no tokens. At every cursor before the
  end of the text the loop accepts the first rule in table order whose pattern matches
  there: the rule at an index \<open>i\<close> whose pattern matches while no pattern of a rule
  before it does, whatever the rules after it would match; it goes on from the end of
  that match, and past the end of the text it returns the tokens. So the lexer returns a
  token list exactly when there is a run of such first matches from offset 0 to the end of
  the text, and the list is what the matches of the run emit. With the rules
  \<open>[("if", KEYWORD), ("[a-zA-Z]+", ID)]\<close> the input \<open>if\<close> gives the one token
  \<open>("if", KEYWORD)\<close>, and the input \<open>iffy\<close> gives \<open>("if", KEYWORD)\<close> and
  \<open>("fy", ID)\<close>, although the identifier rule would match all of it.
\<close>

theorem lexer_first_match_wins:
  "for_token_exprs characters pos tokens token_exprs =
     (case first_match characters pos token_exprs of
        None \<Rightarrow> (None, tokens)
      | Some (e, tag) \<Rightarrow> (Some e, tokens @ emit characters (pos, e, tag)))
   \<and> (first_match characters pos token_exprs = Some (e, tag) \<longleftrightarrow>
        (\<exists>i<length token_exprs. fst (token_exprs ! i) characters pos = Some e
           \<and> snd (token_exprs ! i) = tag
           \<and> (\<forall>j<i. fst (token_exprs ! j) characters pos = None)))
   \<and> (pos < length characters \<longrightarrow>
        lexer_loop characters token_exprs pos tokens =
          (case first_match characters pos token_exprs of
             None \<Rightarrow> Some (Inl (IllegalCharacter (characters ! pos)))
           | Some (e, tag) \<Rightarrow>
               lexer_loop characters token_exprs e (tokens @ emit characters (pos, e, tag))))
   \<and> lexer ''if'' [(re_literal ''if'', Some ''KEYWORD''), (re_class_plus is_alpha, Some ''ID'')]
       = Some (Inr [(''if'', ''KEYWORD'')])
   \<and> lexer characters token_exprs = lexer_loop characters token_exprs 0 []
   \<and> (\<not> pos < length characters \<longrightarrow>
        lexer_loop characters token_exprs pos tokens = Some (Inr tokens))
   \<and> (lexer characters token_exprs = Some (Inr out) \<longleftrightarrow>
        (\<exists>ms. lex_run characters token_exprs 0 ms \<and> out = concat (map (emit characters) ms)))
   \<and> (lex_run characters token_exprs 0 ms \<longrightarrow>
        (\<forall>(s, stop, tg) \<in> set ms.
           \<exists>i<length token_exprs. fst (token_exprs ! i) characters s = Some stop
              \<and> snd (token_exprs ! i) = tg
              \<and> (\<forall>j<i. fst (token_exprs ! j) characters s = None)))
   \<and> lexer ''iffy'' [(re_literal ''if'', Some ''KEYWORD''), (re_class_plus is_alpha, Some ''ID'')]
       = Some (Inr [(''if'', ''KEYWORD''), (''fy'', ''ID'')])"
proof (intro conjI)
  show "lexer ''if'' [(re_literal ''if'', Some ''KEYWORD''), (re_class_plus is_alpha, Some ''ID'')]
       = Some (Inr [(''if'', ''KEYWORD'')])"
    by (simp add: lexer_def lexer_loop.simps re_literal_def slice_def)
  show "lexer ''iffy'' [(re_literal ''if'', Some ''KEYWORD''), (re_class_plus is_alpha, Some ''ID'')]
       = Some (Inr [(''if'', ''KEYWORD''), (''fy'', ''ID'')])"
    by (simp add: lexer_def lexer_loop.simps re_literal_def re_class_plus_def slice_def
        is_alpha_def)
  show "pos < length characters \<longrightarrow>
        lexer_loop characters token_exprs pos tokens =
          (case first_match characters pos token_exprs of
             None \<Rightarrow> Some (Inl (IllegalCharacter (characters ! pos)))
           | Some (e, tag) \<Rightarrow>
               lexer_loop characters token_exprs e (tokens @ emit characters (pos, e, tag)))"
    by (rule impI) (rule lexer_loop_step)
  show "lexer characters token_exprs = lexer_loop characters token_exprs 0 []"
    by (simp add: lexer_def)
  show "\<not> pos < length characters \<longrightarrow>
        lexer_loop characters token_exprs pos tokens = Some (Inr tokens)"
    by (subst lexer_loop.simps) simp
  show "lexer characters token_exprs = Some (Inr out) \<longleftrightarrow>
        (\<exists>ms. lex_run characters token_exprs 0 ms \<and> out = concat (map (emit characters) ms))"
  proof
    assume "lexer characters token_exprs = Some (Inr out)"
    then show "\<exists>ms. lex_run characters token_exprs 0 ms
        \<and> out = concat (map (emit characters) ms)"
      using lexer_loop_run[of characters token_exprs 0 "[]" "Inr out"] by (auto simp: lexer_def)
  next
    assume "\<exists>ms. lex_run characters token_exprs 0 ms \<and> out = concat (map (emit characters) ms)"
    then obtain ms where "lex_run characters token_exprs 0 ms"
      "out = concat (map (emit characters) ms)" by blast
    then show "lexer characters token_exprs = Some (Inr out)"
      using lex_run_lexer_loop[of characters token_exprs 0 ms "[]"] by (simp add: lexer_def)
  qed
  show "lex_run characters token_exprs 0 ms \<longrightarrow>
        (\<forall>(s, stop, tg) \<in> set ms.
           \<exists>i<length token_exprs. fst (token_exprs ! i) characters s = Some stop
              \<and> snd (token_exprs ! i) = tg
              \<and> (\<forall>j<i. fst (token_exprs ! j) characters s = None))"
  proof (intro impI ballI)
    fix m assume run: "lex_run characters token_exprs 0 ms" and m: "m \<in> set ms"
    obtain s stop tg where mm: "m = (s, stop, tg)" by (cases m)
    from lex_run_first_match[OF run] m mm
    have "first_match characters s token_exprs = Some (stop, tg)" by simp
    then have "\<exists>i<length token_exprs. fst (token_exprs ! i) characters s = Some stop
              \<and> snd (token_exprs ! i) = tg
              \<and> (\<forall>j<i. fst (token_exprs ! j) characters s = None)"
      by (simp only: first_match_index)
    with mm show "case m of (s, stop, tg) \<Rightarrow>
           \<exists>i<length token_exprs. fst (token_exprs ! i) characters s = Some stop
              \<and> snd (token_exprs ! i) = tg
              \<and> (\<forall>j<i. fst (token_exprs ! j) characters s = None)"
      by simp
  qed
qed (simp_all only: for_token_exprs_first_match first_match_index)

text \<open>
  On the input \<open>iffy\<close> the keyword rule is accepted at offset 0 with the two characters
  \<open>if\<close>, although the identifier rule after it would match all four; the run of first
  matches is the keyword match from 0 to 2 and the identifier match from 2 to 4.
\<close>

theorem lexer_first_match_wins_witness:
  "re_class_plus is_alpha ''iffy'' 0 = Some 4
   \<and> first_match ''iffy'' 0
        [(re_literal ''if'', Some ''KEYWORD''), (re_class_plus is_alpha, Some ''ID'')]
      = Some (2, Some ''KEYWORD'')
   \<and> lexer_loop ''iffy''
        [(re_literal ''if'', Some ''KEYWORD''), (re_class_plus is_alpha, Some ''ID'')] 0 []
      = lexer_loop ''iffy''
        [(re_literal ''if'', Some ''KEYWORD''), (re_class_plus is_alpha, Some ''ID'')] 2
        [(''if'', ''KEYWORD'')]
   \<and> lex_run ''iffy''
        [(re_literal ''if'', Some ''KEYWORD''), (re_class_plus is_alpha, Some ''ID'')] 0
        [(0, 2, Some ''KEYWORD''), (2, 4, Some ''ID'')]
   \<and> lexer ''iffy''
        [(re_literal ''if'', Some ''KEYWORD''), (re_class_plus is_alpha, Some ''ID'')]
      = Some (Inr [(''if'', ''KEYWORD''), (''fy'', ''ID'')])"
proof -
  let ?rules = "[(re_literal ''if'', Some ''KEYWORD''), (re_class_plus is_alpha, Some ''ID'')]"
  note inst = lexer_first_match_wins[of "''iffy''" 0 "[]" ?rules 2 "Some ''KEYWORD''"
      "[(''if'', ''KEYWORD''), (''fy'', ''ID'')]" "[(0, 2, Some ''KEYWORD''), (2, 4, Some ''ID'')]"]
  have a: "re_class_plus is_alpha ''iffy'' 0 = Some 4"
    by (simp add: re_class_plus_def is_alpha_def)
  have "\<exists>i<length ?rules. fst (?rules ! i) ''iffy'' 0 = Some 2
           \<and> snd (?rules ! i) = Some ''KEYWORD''
           \<and> (\<forall>j<i. fst (?rules ! j) ''iffy'' 0 = None)"
    by (intro exI[of _ 0]) (simp add: re_literal_def)
  then have b: "first_match ''iffy'' 0 ?rules = Some (2, Some ''KEYWORD'')"
    using inst by blast
  have "(0::nat) < length ''iffy''" by simp
  then have "lexer_loop ''iffy'' ?rules 0 [] =
          (case first_match ''iffy'' 0 ?rules of
             None \<Rightarrow> Some (Inl (IllegalCharacter (''iffy'' ! 0)))
           | Some (e, tag) \<Rightarrow> lexer_loop ''iffy'' ?rules e ([] @ emit ''iffy'' (0, e, tag)))"
    using inst by blast
  with b have c: "lexer_loop ''iffy'' ?rules 0 [] = lexer_loop ''iffy'' ?rules 2 [(''if'', ''KEYWORD'')]"
    by (simp add: emit_def slice_def)
  have f2: "first_match ''iffy'' 2 ?rules = Some (4, Some ''ID'')"
    by (simp add: first_match_def re_literal_def re_class_plus_def is_alpha_def)
  have r4: "lex_run ''iffy'' ?rules 4 []" by (rule lex_done) simp
  have r2: "lex_run ''iffy'' ?rules 2 [(2, 4, Some ''ID'')]"
    by (rule lex_step[OF _ f2 r4]) simp
  have d: "lex_run ''iffy'' ?rules 0 [(0, 2, Some ''KEYWORD''), (2, 4, Some ''ID'')]"
    by (rule lex_step[OF _ b r2]) simp
  have "[(''if'', ''KEYWORD''), (''fy'', ''ID'')]
      = concat (map (emit ''iffy'') [(0, 2, Some ''KEYWORD''), (2, 4, Some ''ID'')])"
    by (simp add: emit_def slice_def)
  with d have e: "lexer ''iffy'' ?rules = Some (Inr [(''if'', ''KEYWORD''), (''fy'', ''ID'')])"
    using inst by blast
  from a b c d e show ?thesis by simp
qed

text \<open>
  C6. When the lexer returns a token list, the list is what the accepted matches emit, in
  their order: a match of a rule with a tag emits the one token of the matched text and the
  tag, a match of a rule without a tag emits nothing; and each match, tagged or not, starts
  where the one before it ended. With an untagged whitespace rule and the identifier rule
  \<open>[a-zA-Z]+\<close>, the input \<open>a b\<close> gives the two tokens \<open>("a", ID)\<close> and \<open>("b", ID)\<close>.
\<close>

theorem lexer_discards_untagged:
  "(lexer characters token_exprs = Some (Inr tokens) \<longrightarrow>
      (\<exists>ms. lex_run characters token_exprs 0 ms \<and> chained 0 ms
          \<and> tokens = concat (map (emit characters) ms)))
   \<and> emit characters (start, stop, Some t) = [(slice characters start stop, t)]
   \<and> emit characters (start, stop, None) = []
   \<and> lexer ''a b'' [(re_class_plus is_space, None), (re_class_plus is_alpha, Some ''ID'')]
       = Some (Inr [(''a'', ''ID''), (''b'', ''ID'')])"
proof (intro conjI impI)
  assume "lexer characters token_exprs = Some (Inr tokens)"
  then obtain ms where "lex_run characters token_exprs 0 ms"
    "tokens = concat (map (emit characters) ms)"
    using lexer_loop_run[of characters token_exprs 0 "[]" "Inr tokens"] by (auto simp: lexer_def)
  then show "\<exists>ms. lex_run characters token_exprs 0 ms \<and> chained 0 ms
          \<and> tokens = concat (map (emit characters) ms)"
    using lex_run_chained by blast
next
  show "lexer ''a b'' [(re_class_plus is_space, None), (re_class_plus is_alpha, Some ''ID'')]
       = Some (Inr [(''a'', ''ID''), (''b'', ''ID'')])"
    by (simp add: lexer_def lexer_loop.simps re_class_plus_def slice_def is_space_def is_alpha_def)
qed (simp_all add: emit_def)

theorem lexer_discards_untagged_witness:
  "\<exists>ms. lex_run ''a b'' [(re_class_plus is_space, None), (re_class_plus is_alpha, Some ''ID'')] 0 ms
      \<and> chained 0 ms
      \<and> [(''a'', ''ID''), (''b'', ''ID'')] = concat (map (emit ''a b'') ms)"
proof -
  have "lexer ''a b'' [(re_class_plus is_space, None), (re_class_plus is_alpha, Some ''ID'')]
       = Some (Inr [(''a'', ''ID''), (''b'', ''ID'')])"
    by (simp add: lexer_def lexer_loop.simps re_class_plus_def slice_def is_space_def is_alpha_def)
  then show ?thesis
    by (rule lexer_discards_untagged[THEN conjunct1, THEN mp])
qed

text \<open>
  C9. With patterns whose matches lie within the text, when the lexer returns a token list
  the accepted matches tile the input: the first starts at offset 0, each starts where the
  one before it ended, none ends before it starts, the last ends at the end of the text,
  and their matched texts, concatenated, are the input. The tokens are what the matches
  emit, in the order of the matches, and the text of every token is the slice of the input
  between two offsets.
\<close>

theorem lexer_matches_tile_input:
  assumes "\<forall>(pattern, tag) \<in> set token_exprs. pattern_ok pattern"
    and "lexer characters token_exprs = Some (Inr tokens)"
  shows "\<exists>ms. lex_run characters token_exprs 0 ms
           \<and> consecutive 0 ms (length characters)
           \<and> concat (map (\<lambda>(s, e, tag). slice characters s e) ms) = characters
           \<and> tokens = concat (map (emit characters) ms)
           \<and> (\<forall>(text, t) \<in> set tokens.
                 \<exists>s e. s \<le> e \<and> e \<le> length characters \<and> text = slice characters s e)"
proof -
  from assms(2) obtain ms where ms: "lex_run characters token_exprs 0 ms"
    "tokens = concat (map (emit characters) ms)"
    using lexer_loop_run[of characters token_exprs 0 "[]" "Inr tokens"] by (auto simp: lexer_def)
  from lex_run_tiles[OF assms(1) ms(1)]
  have tiles: "consecutive 0 ms (length characters)"
    "concat (map (\<lambda>(s, e, tag). slice characters s e) ms) = characters" by auto
  have "\<exists>s e. s \<le> e \<and> e \<le> length characters \<and> lexeme = slice characters s e"
    if "(lexeme, t) \<in> set tokens" for lexeme t
  proof -
    from that ms(2) obtain s e
      where se: "(s, e, Some t) \<in> set ms" "lexeme = slice characters s e"
      using emit_texts[of lexeme t characters ms] by auto
    from consecutive_bounds[OF tiles(1) se(1)] se(2) show ?thesis by auto
  qed
  then have "\<forall>(text, t) \<in> set tokens.
      \<exists>s e. s \<le> e \<and> e \<le> length characters \<and> text = slice characters s e"
    by auto
  with ms tiles show ?thesis by blast
qed

theorem lexer_matches_tile_input_witness:
  "\<exists>ms. lex_run ''a b'' [(re_class_plus is_space, None), (re_class_plus is_alpha, Some ''ID'')] 0 ms
      \<and> consecutive 0 ms (length ''a b'')
      \<and> concat (map (\<lambda>(s, e, tag). slice ''a b'' s e) ms) = ''a b''
      \<and> [(''a'', ''ID''), (''b'', ''ID'')] = concat (map (emit ''a b'') ms)
      \<and> (\<exists>s e. s \<le> e \<and> e \<le> length ''a b'' \<and> ''b'' = slice ''a b'' s e)"
proof -
  have ok: "\<forall>(pattern, tag) \<in> set [(re_class_plus is_space, None :: string option),
      (re_class_plus is_alpha, Some ''ID'')]. pattern_ok pattern"
    by (simp add: pattern_ok_re_class_plus)
  have run: "lexer ''a b'' [(re_class_plus is_space, None), (re_class_plus is_alpha, Some ''ID'')]
       = Some (Inr [(''a'', ''ID''), (''b'', ''ID'')])"
    by (simp add: lexer_def lexer_loop.simps re_class_plus_def slice_def is_space_def is_alpha_def)
  from lexer_matches_tile_input[OF ok run] obtain ms
    where ms: "lex_run ''a b'' [(re_class_plus is_space, None), (re_class_plus is_alpha, Some ''ID'')] 0 ms"
      "consecutive 0 ms (length ''a b'')"
      "concat (map (\<lambda>(s, e, tag). slice ''a b'' s e) ms) = ''a b''"
      "[(''a'', ''ID''), (''b'', ''ID'')] = concat (map (emit ''a b'') ms)"
      "\<forall>(text, t) \<in> set [(''a'', ''ID''), (''b'', ''ID'')].
         \<exists>s e. s \<le> e \<and> e \<le> length ''a b'' \<and> text = slice ''a b'' s e"
    by blast
  from ms(5) have "\<exists>s e. s \<le> e \<and> e \<le> length ''a b'' \<and> ''b'' = slice ''a b'' s e"
    by simp
  with ms(1-4) show ?thesis by blast
qed

end
